theory Spec2Isabelle
  imports Complex_Main "HOL-Library.AList"
begin

section \<open>Python values\<close>

text \<open>
  The scraper handles decoded JSON: values of no fixed type. \<open>pyval\<close> is the
  universe of such values. A \<^verbatim>\<open>dict\<close> is an association list in insertion order, read
  with \<open>map_of\<close>; its keys are strings, as JSON object keys are. A \<^verbatim>\<open>str\<close> is a list of
  code points below 256. A \<^verbatim>\<open>float\<close> is idealised as a rational (no NaN, no infinity,
  no rounding).
\<close>

datatype pyval =
    PNone
  | PBool bool
  | PInt int
  | PFloat rat
  | PStr string
  | PList "pyval list"
  | PDict "(string \<times> pyval) list"

text \<open>The exceptions the modelled code can raise.\<close>

datatype error =
  AttributeError | TypeError | KeyError | ValueError | OSError | UnicodeDecodeError
  | RecursionError

text \<open>Truth value of an object, as \<^verbatim>\<open>if x\<close> and \<^verbatim>\<open>not x\<close> test it.\<close>

fun truthy :: "pyval \<Rightarrow> bool" where
  "truthy PNone = False"
| "truthy (PBool b) = b"
| "truthy (PInt i) = (i \<noteq> 0)"
| "truthy (PFloat r) = (r \<noteq> 0)"
| "truthy (PStr s) = (s \<noteq> [])"
| "truthy (PList xs) = (xs \<noteq> [])"
| "truthy (PDict d) = (d \<noteq> [])"

text \<open>\<^verbatim>\<open>d.get(key, default)\<close> on a dict.\<close>

definition dict_get :: "(string \<times> pyval) list \<Rightarrow> string \<Rightarrow> pyval \<Rightarrow> pyval" where
  "dict_get d k dflt = (case map_of d k of Some v \<Rightarrow> v | None \<Rightarrow> dflt)"

text \<open>\<^verbatim>\<open>len(x)\<close>: defined on strings, lists and dicts, a \<^verbatim>\<open>TypeError\<close> elsewhere.\<close>

fun py_len :: "pyval \<Rightarrow> error + nat" where
  "py_len (PStr s) = Inr (length s)"
| "py_len (PList xs) = Inr (length xs)"
| "py_len (PDict d) = Inr (length (remdups (map fst d)))"
| "py_len PNone = Inl TypeError"
| "py_len (PBool b) = Inl TypeError"
| "py_len (PInt i) = Inl TypeError"
| "py_len (PFloat r) = Inl TypeError"

text \<open>
  The elements a \<^verbatim>\<open>for\<close> loop or a comprehension visits: the items of a list, the
  one-character strings of a string, the keys of a dict; other values are not iterable.
\<close>

fun py_iter :: "pyval \<Rightarrow> error + pyval list" where
  "py_iter (PList xs) = Inr xs"
| "py_iter (PStr s) = Inr (map (\<lambda>c. PStr [c]) s)"
| "py_iter (PDict d) = Inr (map PStr (remdups (map fst d)))"
| "py_iter PNone = Inl TypeError"
| "py_iter (PBool b) = Inl TypeError"
| "py_iter (PInt i) = Inl TypeError"
| "py_iter (PFloat r) = Inl TypeError"

text \<open>
  \<^verbatim>\<open>str.lower()\<close> on code points below 256: the letters A-Z and the letters
  U+00C0-U+00DE other than the multiplication sign U+00D7 move up by 32.
\<close>

definition lower_char :: "char \<Rightarrow> char" where
  "lower_char c =
     (let n = (of_char c :: nat) in
      if (65 \<le> n \<and> n \<le> 90) \<or> (192 \<le> n \<and> n \<le> 222 \<and> n \<noteq> 215)
      then char_of (n + 32) else c)"

definition lower :: "string \<Rightarrow> string" where
  "lower s = map lower_char s"

section \<open>DataTransformer\<close>

text \<open>
  \<^verbatim>\<open>safe_get(data, *keys, default)\<close>: walk the keys while the current value is a dict,
  a missing key giving the empty dict; give the default as soon as the current value is
  not a dict, and at the end when the value reached is falsy.
\<close>

fun safe_get :: "pyval \<Rightarrow> string list \<Rightarrow> pyval \<Rightarrow> pyval" where
  "safe_get data [] dflt = (if truthy data then data else dflt)"
| "safe_get data (k # ks) dflt =
     (case data of
        PDict d \<Rightarrow> safe_get (dict_get d k (PDict [])) ks dflt
      | _ \<Rightarrow> dflt)"

text \<open>
  The dataclass \<^verbatim>\<open>JiraIssue\<close>. Python does not check the annotated field types, so a
  field holds whatever the extraction produced.
\<close>

record JiraIssue =
  issue_id :: pyval
  project :: string
  title :: pyval
  description :: pyval
  status :: pyval
  priority :: pyval
  issue_type :: pyval
  reporter :: pyval
  assignee :: pyval
  created_date :: pyval
  updated_date :: pyval
  resolved_date :: pyval
  labels :: pyval
  components :: "pyval list"
  comments :: "pyval list"
  training_task :: string

text \<open>
  \<^verbatim>\<open>_determine_training_task\<close>. \<^verbatim>\<open>issue_type.lower()\<close> is evaluated first and needs
  a string; \<^verbatim>\<open>len(description)\<close> is evaluated only when the first rule does not fire.
\<close>

definition determine_training_task :: "pyval \<Rightarrow> pyval \<Rightarrow> pyval list \<Rightarrow> error + string" where
  "determine_training_task ty descr cmts =
     (case ty of
        PStr t \<Rightarrow>
          if lower t = ''bug'' \<and> length cmts > 2 then Inr ''question_answering''
          else (case py_len descr of
                  Inl e \<Rightarrow> Inl e
                | Inr n \<Rightarrow>
                    if n > 500 then Inr ''summarization''
                    else if lower t \<in> set [''bug'', ''improvement'', ''new feature'', ''task'']
                    then Inr ''classification''
                    else Inr ''general'')
      | _ \<Rightarrow> Inl AttributeError)"

text \<open>\<^verbatim>\<open>issue_id.split('-')[0] if issue_id else ''\<close>.\<close>

definition project_of :: "pyval \<Rightarrow> error + string" where
  "project_of key =
     (if truthy key
      then (case key of
              PStr s \<Rightarrow> Inr (takeWhile (\<lambda>c. c \<noteq> CHR ''-'') s)
            | _ \<Rightarrow> Inl AttributeError)
      else Inr '''')"

text \<open>
  The elements of a comprehension that calls \<^verbatim>\<open>.get\<close> on each of them: every element
  has to be a dict, the first that is not raises \<^verbatim>\<open>AttributeError\<close>.
\<close>

fun as_dicts :: "pyval list \<Rightarrow> error + (string \<times> pyval) list list" where
  "as_dicts [] = Inr []"
| "as_dicts (x # xs) =
     (case x of
        PDict d \<Rightarrow> (case as_dicts xs of Inl e \<Rightarrow> Inl e | Inr ds \<Rightarrow> Inr (d # ds))
      | _ \<Rightarrow> Inl AttributeError)"

text \<open>\<^verbatim>\<open>[c.get('name', '') for c in v]\<close>.\<close>

definition component_names :: "pyval \<Rightarrow> error + pyval list" where
  "component_names v =
     (case py_iter v of
        Inl e \<Rightarrow> Inl e
      | Inr cs \<Rightarrow>
          (case as_dicts cs of
             Inl e \<Rightarrow> Inl e
           | Inr ds \<Rightarrow> Inr (map (\<lambda>d. dict_get d ''name'' (PStr '''')) ds)))"

text \<open>
  \<^verbatim>\<open>transform_issue\<close>, in the order of the source: the key and its project prefix, the
  \<^verbatim>\<open>safe_get\<close> fields, the direct \<^verbatim>\<open>fields.get\<close> reads (which need \<^verbatim>\<open>fields\<close> to be a
  dict), the component names, the training task.
\<close>

definition transform_issue :: "(string \<times> pyval) list \<Rightarrow> pyval list \<Rightarrow> error + JiraIssue" where
  "transform_issue issue_data cmts =
     (let fields = dict_get issue_data ''fields'' (PDict []);
          key = dict_get issue_data ''key'' (PStr '''')
      in case project_of key of
           Inl e \<Rightarrow> Inl e
         | Inr proj \<Rightarrow>
            (let ttl = safe_get fields [''summary''] (PStr ''No Title'');
                 descr = safe_get fields [''description''] (PStr ''No Description'');
                 stat = safe_get fields [''status'', ''name''] (PStr ''Unknown'');
                 prio = safe_get fields [''priority'', ''name''] (PStr ''Unknown'');
                 ityp = safe_get fields [''issuetype'', ''name''] (PStr ''Unknown'');
                 rep = safe_get fields [''reporter'', ''displayName''] (PStr ''Unknown'');
                 asg = safe_get fields [''assignee'', ''displayName''] PNone
             in case fields of
                  PDict fd \<Rightarrow>
                    (case component_names (dict_get fd ''components'' (PList [])) of
                       Inl e \<Rightarrow> Inl e
                     | Inr comps \<Rightarrow>
                        (case determine_training_task ityp descr cmts of
                           Inl e \<Rightarrow> Inl e
                         | Inr task \<Rightarrow>
                             Inr \<lparr>issue_id = key, project = proj, title = ttl,
                                  description = descr, status = stat, priority = prio,
                                  issue_type = ityp, reporter = rep, assignee = asg,
                                  created_date = dict_get fd ''created'' (PStr ''''),
                                  updated_date = dict_get fd ''updated'' (PStr ''''),
                                  resolved_date = dict_get fd ''resolutiondate'' PNone,
                                  labels = dict_get fd ''labels'' (PList []),
                                  components = comps, comments = cmts,
                                  training_task = task\<rparr>))
                | _ \<Rightarrow> Inl AttributeError))"

section \<open>JiraAPIClient\<close>

text \<open>
  The client object holds the configured delay and the time of the last rate-limit step.
  Time is idealised: \<^verbatim>\<open>time.time()\<close> reads a rational clock and \<^verbatim>\<open>time.sleep(d)\<close>
  takes exactly \<open>d\<close>.
\<close>

record client =
  rate_limit_delay :: rat
  last_request_time :: rat

text \<open>
  What a run does that can be observed from outside: a call of \<^verbatim>\<open>_rate_limit\<close>, a call
  of \<^verbatim>\<open>time.sleep\<close> with its duration, a call of \<^verbatim>\<open>session.get\<close>.
\<close>

datatype event = RateLimit | Sleep rat | Get

text \<open>
  \<^verbatim>\<open>_rate_limit\<close>, entered when the clock reads \<open>now\<close>: sleep for what is left of the
  delay since \<open>last_request_time\<close>, then store the clock's new reading.
\<close>

definition rate_limit :: "client \<Rightarrow> rat \<Rightarrow> client \<times> event list" where
  "rate_limit c now =
     (let elapsed = now - last_request_time c in
      if elapsed < rate_limit_delay c
      then (c\<lparr>last_request_time := now + (rate_limit_delay c - elapsed)\<rparr>,
            [RateLimit, Sleep (rate_limit_delay c - elapsed)])
      else (c\<lparr>last_request_time := now\<rparr>, [RateLimit]))"

text \<open>
  The \<^verbatim>\<open>Retry-After\<close> header of a response, classified by what
  \<^verbatim>\<open>int(response.headers.get('Retry-After', 60))\<close> does with it: the header is absent,
  \<^verbatim>\<open>int\<close> reads an integer from its text, or \<^verbatim>\<open>int\<close> raises \<^verbatim>\<open>ValueError\<close>.
\<close>

datatype retry_after_header = Absent | IntText int | BadText

fun retry_after :: "retry_after_header \<Rightarrow> error + int" where
  "retry_after Absent = Inr 60"
| "retry_after (IntText n) = Inr n"
| "retry_after BadText = Inl ValueError"

text \<open>
  What one pass through the \<^verbatim>\<open>try\<close> block meets: a response (status code, header and
  the value its \<^verbatim>\<open>json()\<close> returns), a \<^verbatim>\<open>Timeout\<close>, or another \<^verbatim>\<open>RequestException\<close>,
  raised by \<^verbatim>\<open>session.get\<close> or by \<^verbatim>\<open>json()\<close>. Each pass makes one request, so the
  server is a function from the attempt number to what that attempt meets.
\<close>

datatype outcome = Response int retry_after_header pyval | Timeout | RequestError

text \<open>
  The \<^verbatim>\<open>for attempt in range(max_retries)\<close> loop over the attempts still to run. The
  result is the value returned (\<open>None\<close> for Python's \<^verbatim>\<open>None\<close>) or the exception that
  escapes, with the events in order. \<^verbatim>\<open>continue\<close> and the end of a handler both go on
  to the next attempt; when no attempt is left the function returns \<^verbatim>\<open>None\<close>.
  \<^verbatim>\<open>time.sleep\<close> of a negative number raises \<^verbatim>\<open>ValueError\<close>.
\<close>

definition after_events :: "event list \<Rightarrow> 'a \<times> event list \<Rightarrow> 'a \<times> event list" where
  "after_events es r = (fst r, es @ snd r)"

fun retry_loop ::
  "int \<Rightarrow> (nat \<Rightarrow> outcome) \<Rightarrow> nat list \<Rightarrow> (error + pyval option) \<times> event list" where
  "retry_loop max_retries server [] = (Inr None, [])"
| "retry_loop max_retries server (attempt # rest) =
     (case server attempt of
        Response status_code hdr body \<Rightarrow>
          if status_code = 429 then
            (case retry_after hdr of
               Inl e \<Rightarrow> (Inl e, [Get])
             | Inr w \<Rightarrow>
                 if w < 0 then (Inl ValueError, [Get])
                 else after_events [Get, Sleep (of_int w)] (retry_loop max_retries server rest))
          else if status_code \<ge> 500 then
            after_events [Get, Sleep (2 ^ attempt)] (retry_loop max_retries server rest)
          else if status_code = 200 then (Inr (Some body), [Get])
          else (Inr None, [Get])
      | Timeout \<Rightarrow>
          after_events [Get, Sleep (2 ^ attempt)] (retry_loop max_retries server rest)
      | RequestError \<Rightarrow>
          if int attempt = max_retries - 1 then (Inr None, [Get])
          else after_events [Get, Sleep (2 ^ attempt)] (retry_loop max_retries server rest))"

text \<open>
  \<^verbatim>\<open>_make_request\<close>: one rate-limit step, then the retry loop over
  \<^verbatim>\<open>range(max_retries)\<close>.
\<close>

definition make_request ::
  "client \<Rightarrow> rat \<Rightarrow> int \<Rightarrow> (nat \<Rightarrow> outcome) \<Rightarrow> (error + pyval option) \<times> client \<times> event list" where
  "make_request c now max_retries server =
     (let (c', es) = rate_limit c now;
          (r, es') = retry_loop max_retries server [0..<nat max_retries]
      in (r, c', es @ es'))"

text \<open>
  The property "a rate-limit step comes before every attempt", as a check of an event
  list: \<open>armed\<close> says that a rate-limit step has run since the last attempt.
\<close>

fun rate_limited_attempts :: "bool \<Rightarrow> event list \<Rightarrow> bool" where
  "rate_limited_attempts armed [] = True"
| "rate_limited_attempts armed (RateLimit # es) = rate_limited_attempts True es"
| "rate_limited_attempts armed (Sleep d # es) = rate_limited_attempts armed es"
| "rate_limited_attempts armed (Get # es) = (armed \<and> rate_limited_attempts False es)"

text \<open>Servers used in the examples below.\<close>

definition always_429 :: "nat \<Rightarrow> outcome" where
  "always_429 n = Response 429 Absent PNone"

definition two_500_then_200 :: "nat \<Rightarrow> outcome" where
  "two_500_then_200 n =
     (if n < 2 then Response 500 Absent PNone
      else Response 200 Absent (PDict [(''success'', PBool True)]))"

definition one_429_then_200 :: "nat \<Rightarrow> outcome" where
  "one_429_then_200 n =
     (if n < 1 then Response 429 (IntText 1) PNone
      else Response 200 Absent (PDict [(''success'', PBool True)]))"

definition always_500 :: "nat \<Rightarrow> outcome" where
  "always_500 n = Response 500 Absent PNone"

definition fresh_client :: client where
  "fresh_client = \<lparr>rate_limit_delay = 1, last_request_time = 0\<rparr>"

section \<open>CheckpointManager\<close>

text \<open>
  The checkpoint file, classified by what \<^verbatim>\<open>_load_checkpoint\<close> meets:
  \<^item> \<open>Missing\<close>: no file, \<^verbatim>\<open>exists()\<close> is false;
  \<^item> \<open>Unreadable\<close>: a file that \<^verbatim>\<open>open\<close> cannot open (\<^verbatim>\<open>OSError\<close>);
  \<^item> \<open>BadBytes\<close>: a file whose bytes are not text in the encoding, on which reading
    inside \<^verbatim>\<open>json.load\<close> raises \<^verbatim>\<open>UnicodeDecodeError\<close>;
  \<^item> \<open>NotJson\<close>: a file whose text \<^verbatim>\<open>json.load\<close> rejects with \<^verbatim>\<open>JSONDecodeError\<close>
    (an empty or truncated file, for instance);
  \<^item> \<open>TooDeep\<close>: JSON text nested so deeply that \<^verbatim>\<open>json.load\<close> raises
    \<^verbatim>\<open>RecursionError\<close>;
  \<^item> \<open>HugeNumber\<close>: JSON text with an integer of more digits than the interpreter
    converts, on which \<^verbatim>\<open>json.load\<close> raises a \<^verbatim>\<open>ValueError\<close> that is not a
    \<^verbatim>\<open>JSONDecodeError\<close>;
  \<^item> \<open>Json v\<close>: a file whose text \<^verbatim>\<open>json.load\<close> decodes to the value \<open>v\<close>.

  \<^verbatim>\<open>json.dump\<close> followed by \<^verbatim>\<open>json.load\<close> gives the value back, so a saved file is
  \<open>Json\<close> of the state saved.
\<close>

datatype file_state =
  Missing | Unreadable | BadBytes | NotJson | TooDeep | HugeNumber | Json pyval

datatype log_record = InfoLoaded | WarningCorrupted

record manager =
  state :: pyval
  checkpoint_file :: file_state

definition empty_state :: pyval where
  "empty_state = PDict [(''projects'', PDict [])]"

text \<open>
  \<^verbatim>\<open>_load_checkpoint\<close>, with the log records it writes. The info record is written
  inside the \<^verbatim>\<open>with\<close> block, once the file is open and before \<^verbatim>\<open>json.load\<close> runs.
  Only \<^verbatim>\<open>JSONDecodeError\<close> is caught: every other exception of \<^verbatim>\<open>open\<close> or of
  \<^verbatim>\<open>json.load\<close> leaves the function, and with it the constructor.
\<close>

definition load_checkpoint :: "file_state \<Rightarrow> (error + pyval) \<times> log_record list" where
  "load_checkpoint f =
     (case f of
        Missing \<Rightarrow> (Inr empty_state, [])
      | Unreadable \<Rightarrow> (Inl OSError, [])
      | BadBytes \<Rightarrow> (Inl UnicodeDecodeError, [InfoLoaded])
      | NotJson \<Rightarrow> (Inr empty_state, [InfoLoaded, WarningCorrupted])
      | TooDeep \<Rightarrow> (Inl RecursionError, [InfoLoaded])
      | HugeNumber \<Rightarrow> (Inl ValueError, [InfoLoaded])
      | Json v \<Rightarrow> (Inr v, [InfoLoaded]))"

text \<open>The constructor: a manager for the file, with the loaded state.\<close>

definition new_manager :: "file_state \<Rightarrow> error + manager" where
  "new_manager f =
     (case fst (load_checkpoint f) of
        Inl e \<Rightarrow> Inl e
      | Inr v \<Rightarrow> Inr \<lparr>state = v, checkpoint_file = f\<rparr>)"

definition save_checkpoint :: "manager \<Rightarrow> manager" where
  "save_checkpoint m = m\<lparr>checkpoint_file := Json (state m)\<rparr>"

text \<open>
  The methods take the manager and give it back with their result, as a method that
  may assign to \<^verbatim>\<open>self\<close> does. \<^verbatim>\<open>self.state['projects']\<close> raises \<^verbatim>\<open>KeyError\<close> on a dict
  without that key and \<^verbatim>\<open>TypeError\<close> on a state that is not a dict; \<^verbatim>\<open>.get\<close> needs a
  dict, and so does the assignment to an item named by a string.
\<close>

definition get_project_progress :: "manager \<Rightarrow> string \<Rightarrow> (error + pyval) \<times> manager" where
  "get_project_progress m proj =
     (case state m of
        PDict d \<Rightarrow>
          (case map_of d ''projects'' of
             None \<Rightarrow> (Inl KeyError, m)
           | Some (PDict p) \<Rightarrow> (Inr (dict_get p proj (PInt 0)), m)
           | Some _ \<Rightarrow> (Inl AttributeError, m))
      | _ \<Rightarrow> (Inl TypeError, m))"

definition update_project_progress ::
  "manager \<Rightarrow> string \<Rightarrow> pyval \<Rightarrow> (error + unit) \<times> manager" where
  "update_project_progress m proj start_at =
     (case state m of
        PDict d \<Rightarrow>
          (case map_of d ''projects'' of
             None \<Rightarrow> (Inl KeyError, m)
           | Some (PDict p) \<Rightarrow>
               (Inr (),
                save_checkpoint
                  (m\<lparr>state := PDict (AList.update ''projects''
                                        (PDict (AList.update proj start_at p)) d)\<rparr>))
           | Some _ \<Rightarrow> (Inl TypeError, m))
      | _ \<Rightarrow> (Inl TypeError, m))"

section \<open>JiraScraper\<close>

text \<open>
  The orchestrator is modelled against the two client operations it calls, as the test
  suite patches them: \<^verbatim>\<open>search_issues(project, start_at)\<close> returns the decoded page or
  \<^verbatim>\<open>None\<close>; \<^verbatim>\<open>get_issue_comments(key)\<close> returns a comment list or raises. Within one run
  the offsets of successive searches differ, so a function of the offset is as general
  as a sequence of answers. The comment fetches of a page run on a thread pool in the
  source, and \<^verbatim>\<open>as_completed\<close> hands them over in the order in which they finish, which
  the scheduler decides: \<open>completion_rank keys i\<close> is the rank at which the fetch
  submitted \<open>i\<close>-th for the keys \<open>keys\<close> finishes. The answer of a fetch depends on its
  key only. Keys that Python treats as one dict key (such as 0 and False) are taken to
  fetch the same comments.
\<close>

record api =
  search_issues :: "string \<Rightarrow> pyval \<Rightarrow> pyval"
  get_issue_comments :: "pyval \<Rightarrow> error + pyval list"
  completion_rank :: "pyval list \<Rightarrow> nat \<Rightarrow> nat"

text \<open>
  The orchestrator's state: the checkpoint manager, the lines appended to the project's
  output file (one record each), the three counters of \<^verbatim>\<open>self.stats\<close>, and the offsets
  passed to \<^verbatim>\<open>search_issues\<close> so far.
\<close>

record scraper =
  checkpoint_manager :: manager
  output_file :: "JiraIssue list"
  total_issues :: nat
  total_comments :: nat
  errors :: nat
  search_calls :: "pyval list"

text \<open>A list or a dict cannot be a dict key.\<close>

fun hashable :: "pyval \<Rightarrow> bool" where
  "hashable (PList xs) = False"
| "hashable (PDict d) = False"
| "hashable v = True"

definition item_key :: "(string \<times> pyval) list \<Rightarrow> pyval" where
  "item_key d = dict_get d ''key'' (PStr ''UNKNOWN'')"

text \<open>The entry of \<^verbatim>\<open>comments_map\<close> for a key: the list fetched, empty when the fetch raised.\<close>

definition comments_for :: "api \<Rightarrow> pyval \<Rightarrow> pyval list" where
  "comments_for a k = (case get_issue_comments a k of Inr cs \<Rightarrow> cs | Inl e \<Rightarrow> [])"

text \<open>
  The keys of a page in the order in which \<^verbatim>\<open>as_completed\<close> yields their fetches: the
  positions \<open>0, ..., length keys - 1\<close> sorted by rank, equal ranks in submission order.
  It is a rearrangement of the keys whatever the ranks are.
\<close>

definition completion_order :: "api \<Rightarrow> pyval list \<Rightarrow> pyval list" where
  "completion_order a keys =
     map (\<lambda>i. keys ! i) (sort_key (completion_rank a keys) [0..<length keys])"

text \<open>
  The loop over the completed fetches. Storing a result under an unhashable key raises
  \<^verbatim>\<open>TypeError\<close> in the \<^verbatim>\<open>try\<close> before any counter moves, and again in the handler, so
  the exception leaves the loop with the counters as the fetches handled before it left
  them. For a hashable key, a fetched list adds its length to \<^verbatim>\<open>total_comments\<close> and
  a failed fetch adds one to \<^verbatim>\<open>errors\<close>.
\<close>

fun handle_completed :: "api \<Rightarrow> pyval list \<Rightarrow> scraper \<Rightarrow> error option \<times> scraper" where
  "handle_completed a [] s = (None, s)"
| "handle_completed a (k # ks) s =
     (if \<not> hashable k then (Some TypeError, s)
      else case get_issue_comments a k of
             Inr cs \<Rightarrow>
               handle_completed a ks (s\<lparr>total_comments := total_comments s + length cs\<rparr>)
           | Inl e \<Rightarrow> handle_completed a ks (s\<lparr>errors := errors s + 1\<rparr>))"

text \<open>The comment stage: one fetch per key, handled in completion order.\<close>

definition fetch_comments :: "api \<Rightarrow> pyval list \<Rightarrow> scraper \<Rightarrow> error option \<times> scraper" where
  "fetch_comments a keys s = handle_completed a (completion_order a keys) s"

text \<open>
  The loop over the page's items: transform and write one line, counting it; an exception
  of the transform is caught, counted as an error, and the item is skipped. Serialising
  and writing a record that the transform returned are taken to succeed.
\<close>

fun process_issues :: "api \<Rightarrow> (string \<times> pyval) list list \<Rightarrow> scraper \<Rightarrow> scraper" where
  "process_issues a [] s = s"
| "process_issues a (issue_data # rest) s =
     (case transform_issue issue_data (comments_for a (item_key issue_data)) of
        Inr issue \<Rightarrow>
          process_issues a rest
            (s\<lparr>output_file := output_file s @ [issue], total_issues := total_issues s + 1\<rparr>)
      | Inl e \<Rightarrow> process_issues a rest (s\<lparr>errors := errors s + 1\<rparr>))"

text \<open>\<^verbatim>\<open>start_at += n\<close> for a length \<open>n\<close>: numbers add, anything else raises.\<close>

fun py_add_nat :: "pyval \<Rightarrow> nat \<Rightarrow> error + pyval" where
  "py_add_nat (PInt i) n = Inr (PInt (i + int n))"
| "py_add_nat (PBool b) n = Inr (PInt ((if b then 1 else 0) + int n))"
| "py_add_nat (PFloat r) n = Inr (PFloat (r + of_nat n))"
| "py_add_nat PNone n = Inl TypeError"
| "py_add_nat (PStr s) n = Inl TypeError"
| "py_add_nat (PList xs) n = Inl TypeError"
| "py_add_nat (PDict d) n = Inl TypeError"

text \<open>
  \<^verbatim>\<open>x >= y\<close> where \<open>x\<close> is a number, as \<^verbatim>\<open>start_at\<close> is after the addition: numbers
  compare by value, a number against anything else raises.
\<close>

fun py_num :: "pyval \<Rightarrow> rat option" where
  "py_num (PInt i) = Some (of_int i)"
| "py_num (PBool b) = Some (if b then 1 else 0)"
| "py_num (PFloat r) = Some r"
| "py_num v = None"

definition py_ge :: "pyval \<Rightarrow> pyval \<Rightarrow> error + bool" where
  "py_ge x y =
     (case py_num x of
        None \<Rightarrow> Inl TypeError
      | Some a \<Rightarrow> (case py_num y of None \<Rightarrow> Inl TypeError | Some b \<Rightarrow> Inr (a \<ge> b)))"

text \<open>
  One pass through the body of \<^verbatim>\<open>while True\<close>. It ends by going round again with the
  new offset, by \<^verbatim>\<open>break\<close>, or with an exception that leaves \<^verbatim>\<open>scrape_project\<close>; each
  carries the state reached.
\<close>

datatype flow = Continue pyval scraper | Break scraper | Raise error scraper

definition scrape_page :: "api \<Rightarrow> string \<Rightarrow> pyval \<Rightarrow> scraper \<Rightarrow> flow" where
  "scrape_page a proj start_at s0 =
     (let response = search_issues a proj start_at;
          s = s0\<lparr>search_calls := search_calls s0 @ [start_at]\<rparr>
      in if \<not> truthy response then Break (s\<lparr>errors := errors s + 1\<rparr>)
         else case response of
           PDict r \<Rightarrow>
             (let issues = dict_get r ''issues'' (PList []);
                  total = dict_get r ''total'' (PInt 0)
              in if \<not> truthy issues then Break s
                 else case py_iter issues of
                   Inl e \<Rightarrow> Raise e s
                 | Inr items \<Rightarrow>
                 (case as_dicts items of
                    Inl e \<Rightarrow> Raise e s
                  | Inr ds \<Rightarrow>
                  (case fetch_comments a (map item_key ds) s of
                     (Some e, s1) \<Rightarrow> Raise e s1
                   | (None, s1) \<Rightarrow>
                   (let s2 = process_issues a ds s1
                    in case py_len issues of
                      Inl e \<Rightarrow> Raise e s2
                    | Inr n \<Rightarrow>
                    (case py_add_nat start_at n of
                       Inl e \<Rightarrow> Raise e s2
                     | Inr start_at' \<Rightarrow>
                     (case update_project_progress (checkpoint_manager s2) proj start_at' of
                        (Inl e, m) \<Rightarrow> Raise e s2
                      | (Inr u, m) \<Rightarrow>
                          (let s3 = s2\<lparr>checkpoint_manager := m\<rparr>
                           in case py_ge start_at' total of
                                Inl e \<Rightarrow> Raise e s3
                              | Inr stop \<Rightarrow>
                                  if stop then Break s3 else Continue start_at' s3)))))))
         | _ \<Rightarrow> Raise AttributeError s)"

text \<open>
  The \<^verbatim>\<open>while True\<close> loop. It need not end (a server may go on reporting a larger
  total), so the result is optional: \<open>None\<close> when the loop runs forever, otherwise the
  exception that escaped, if any, and the final state.
\<close>

partial_function (option) scrape_loop ::
  "api \<Rightarrow> string \<Rightarrow> pyval \<Rightarrow> scraper \<Rightarrow> (error option \<times> scraper) option" where
  "scrape_loop a proj start_at s =
     (case scrape_page a proj start_at s of
        Continue start_at' s' \<Rightarrow> scrape_loop a proj start_at' s'
      | Break s' \<Rightarrow> Some (None, s')
      | Raise e s' \<Rightarrow> Some (Some e, s'))"

text \<open>\<^verbatim>\<open>scrape_project\<close>: read the checkpoint's offset for the project, then loop from it.\<close>

definition scrape_project ::
  "api \<Rightarrow> string \<Rightarrow> scraper \<Rightarrow> (error option \<times> scraper) option" where
  "scrape_project a proj s =
     (case fst (get_project_progress (checkpoint_manager s) proj) of
        Inl e \<Rightarrow> Some (Some e, s)
      | Inr start_at \<Rightarrow> scrape_loop a proj start_at s)"

section \<open>Auxiliary notions for the statements\<close>

text \<open>
  The sleep that follows attempt \<open>i\<close> when what the attempt meets sends the loop on to
  the next attempt whatever \<^verbatim>\<open>max_retries\<close> is: a 429 with a usable retry-after value,
  a status of 500 or more, a timeout.
\<close>

definition goes_on :: "(nat \<Rightarrow> outcome) \<Rightarrow> nat \<Rightarrow> rat option" where
  "goes_on server i =
     (case server i of
        Response status_code hdr body \<Rightarrow>
          if status_code = 429 then
            (case retry_after hdr of
               Inl e \<Rightarrow> None
             | Inr w \<Rightarrow> if w < 0 then None else Some (of_int w))
          else if status_code \<ge> 500 then Some (2 ^ i)
          else None
      | Timeout \<Rightarrow> Some (2 ^ i)
      | RequestError \<Rightarrow> None)"

text \<open>A response with a server-error status.\<close>

fun server_error :: "outcome \<Rightarrow> bool" where
  "server_error (Response status_code hdr body) = (500 \<le> status_code)"
| "server_error Timeout = False"
| "server_error RequestError = False"

text \<open>A 429 response whose retry-after value is \<open>w\<close>, not negative.\<close>

fun throttled :: "outcome \<Rightarrow> int \<Rightarrow> bool" where
  "throttled (Response status_code hdr body) w =
     (status_code = 429 \<and> retry_after hdr = Inr w \<and> 0 \<le> w)"
| "throttled Timeout w = False"
| "throttled RequestError w = False"

text \<open>
  A checkpoint state of the shape the manager writes: a dict whose \<^verbatim>\<open>'projects'\<close>
  entry is the dict \<open>p\<close>.
\<close>

definition projects_dict :: "pyval \<Rightarrow> (string \<times> pyval) list \<Rightarrow> bool" where
  "projects_dict st p =
     (case st of PDict d \<Rightarrow> map_of d ''projects'' = Some (PDict p) | _ \<Rightarrow> False)"

text \<open>
  The search at offset \<open>off\<close> answers with a page: a non-empty dict whose \<^verbatim>\<open>'issues'\<close>
  are the dicts \<open>ds\<close>, each with a hashable key, and whose \<^verbatim>\<open>'total'\<close> is the integer
  \<open>T\<close> (0 when absent).
\<close>

definition page_at :: "api \<Rightarrow> string \<Rightarrow> int \<Rightarrow> (string \<times> pyval) list list \<Rightarrow> int \<Rightarrow> bool" where
  "page_at a proj off ds T =
     (case search_issues a proj (PInt off) of
        PDict r \<Rightarrow>
          r \<noteq> [] \<and> dict_get r ''issues'' (PList []) = PList (map PDict ds)
          \<and> dict_get r ''total'' (PInt 0) = PInt T
          \<and> list_all hashable (map item_key ds)
      | _ \<Rightarrow> False)"





text \<open>The record made of defaults only, with the comments passed in.\<close>

definition default_record :: "pyval list \<Rightarrow> JiraIssue" where
  "default_record cs =
     \<lparr>issue_id = PStr '''', project = '''', title = PStr ''No Title'',
      description = PStr ''No Description'', status = PStr ''Unknown'',
      priority = PStr ''Unknown'', issue_type = PStr ''Unknown'',
      reporter = PStr ''Unknown'', assignee = PNone, created_date = PStr '''',
      updated_date = PStr '''', resolved_date = PNone, labels = PList [],
      components = [], comments = cs, training_task = ''general''\<rparr>"

text \<open>The records written for a page: those of the items whose transform returns.\<close>

fun written :: "api \<Rightarrow> (string \<times> pyval) list list \<Rightarrow> JiraIssue list" where
  "written a [] = []"
| "written a (d # ds) =
     (case transform_issue d (comments_for a (item_key d)) of
        Inr issue \<Rightarrow> issue # written a ds
      | Inl e \<Rightarrow> written a ds)"

text \<open>The state that a pass through the loop body ends in.\<close>

fun flow_state :: "flow \<Rightarrow> scraper" where
  "flow_state (Continue start_at s) = s"
| "flow_state (Break s) = s"
| "flow_state (Raise e s) = s"

text \<open>The offset a fresh manager reads for a project from a checkpoint file.\<close>

definition persisted_progress :: "file_state \<Rightarrow> string \<Rightarrow> error + pyval" where
  "persisted_progress f proj =
     (case new_manager f of
        Inl e \<Rightarrow> Inl e
      | Inr m \<Rightarrow> fst (get_project_progress m proj))"

section \<open>Example inputs\<close>




text \<open>
  A server with five items, served two to a page, and a scraper whose checkpoint says
  that two of them are done.
\<close>

definition plain_item :: "string \<Rightarrow> (string \<times> pyval) list" where
  "plain_item k = [(''key'', PStr k), (''fields'', PDict [(''summary'', PStr ''s'')])]"

definition five_items_api :: api where
  "five_items_api =
     \<lparr>search_issues = (\<lambda>proj off.
        if off = PInt 0 then
          PDict [(''total'', PInt 5),
                 (''issues'', PList [PDict (plain_item ''T-1''), PDict (plain_item ''T-2'')])]
        else if off = PInt 2 then
          PDict [(''total'', PInt 5),
                 (''issues'', PList [PDict (plain_item ''T-3''), PDict (plain_item ''T-4'')])]
        else if off = PInt 4 then
          PDict [(''total'', PInt 5), (''issues'', PList [PDict (plain_item ''T-5'')])]
        else PDict [(''total'', PInt 5), (''issues'', PList [])]),
      get_issue_comments = (\<lambda>k. Inr []),
      completion_rank = (\<lambda>keys i. i)\<rparr>"

definition resumed_scraper :: scraper where
  "resumed_scraper =
     \<lparr>checkpoint_manager =
        \<lparr>state = PDict [(''projects'', PDict [(''T'', PInt 2)])],
         checkpoint_file = Json (PDict [(''projects'', PDict [(''T'', PInt 2)])])\<rparr>,
      output_file = [], total_issues = 0, total_comments = 0, errors = 0,
      search_calls = []\<rparr>"

text \<open>A description of 600 characters.\<close>

definition long_description :: string where
  "long_description = replicate 600 CHR ''x''"

declare scrape_loop.simps [code]

section \<open>The retry loop\<close>

lemma retry_loop_goes_on:
  "goes_on server i = Some w \<Longrightarrow>
   retry_loop mr server (i # rest) = after_events [Get, Sleep w] (retry_loop mr server rest)"
  by (auto simp: goes_on_def split: outcome.splits sum.splits if_splits)

lemma retry_loop_prefix:
  "(\<And>i. j \<le> i \<Longrightarrow> i < k \<Longrightarrow> goes_on server i = Some (w i)) \<Longrightarrow>
   retry_loop mr server ([j..<k] @ rest) =
   after_events (concat (map (\<lambda>i. [Get, Sleep (w i)]) [j..<k])) (retry_loop mr server rest)"
proof (induction "k - j" arbitrary: j)
  case 0
  then show ?case by (simp add: after_events_def)
next
  case (Suc d)
  then have lt: "j < k" by simp
  have step: "goes_on server j = Some (w j)" using Suc.prems lt by simp
  have IH: "retry_loop mr server ([Suc j..<k] @ rest) =
    after_events (concat (map (\<lambda>i. [Get, Sleep (w i)]) [Suc j..<k])) (retry_loop mr server rest)"
    using Suc.hyps(1)[of "Suc j"] Suc.hyps(2) Suc.prems by simp
  show ?case
    using lt
    by (simp add: upt_conv_Cons retry_loop_goes_on[OF step] IH after_events_def
             del: retry_loop.simps)
qed

lemma server_error_goes_on: "server_error (server i) \<Longrightarrow> goes_on server i = Some (2 ^ i)"
  by (cases "server i") (auto simp: goes_on_def)

lemma throttled_goes_on: "throttled (server i) w \<Longrightarrow> goes_on server i = Some (of_int w)"
  by (cases "server i") (auto simp: goes_on_def)

lemma retry_loop_no_rate_limit: "RateLimit \<notin> set (snd (retry_loop mr server atts))"
  by (induction atts)
     (auto simp: after_events_def split: outcome.splits sum.splits if_splits)

lemma make_request_unfold:
  "make_request c now mr server =
     (fst (retry_loop mr server [0..<nat mr]), fst (rate_limit c now),
      snd (rate_limit c now) @ snd (retry_loop mr server [0..<nat mr]))"
  by (simp add: make_request_def split: prod.splits)

lemma upt_split_at: "k < n \<Longrightarrow> [0..<n] = [0..<k] @ k # [Suc k..<n]"
  by (metis less_imp_le_nat upt_add_eq_append upt_conv_Cons zero_le le_add_diff_inverse)

lemma count_get_rounds:
  "count_list (concat (map (\<lambda>i. [Get, Sleep (w i)]) xs)) Get = length xs"
  by (induction xs) simp_all

lemma count_get_rate_limit: "count_list (snd (rate_limit c now)) Get = 0"
  by (simp add: rate_limit_def Let_def)

lemma make_request_goes_on_then_200:
  assumes kn: "k < nat mr"
    and pre: "\<And>i. i < k \<Longrightarrow> goes_on server i = Some (w i)"
    and ok: "server k = Response 200 hdr body"
  shows "make_request c now mr server =
           (Inr (Some body), fst (rate_limit c now),
            snd (rate_limit c now) @ concat (map (\<lambda>i. [Get, Sleep (w i)]) [0..<k]) @ [Get])"
proof -
  have "retry_loop mr server ([0..<k] @ k # [Suc k..<nat mr]) =
        after_events (concat (map (\<lambda>i. [Get, Sleep (w i)]) [0..<k]))
          (retry_loop mr server (k # [Suc k..<nat mr]))"
    by (rule retry_loop_prefix) (use pre in simp)
  moreover have "retry_loop mr server (k # [Suc k..<nat mr]) = (Inr (Some body), [Get])"
    using ok by simp
  ultimately have "retry_loop mr server [0..<nat mr] =
        (Inr (Some body), concat (map (\<lambda>i. [Get, Sleep (w i)]) [0..<k]) @ [Get])"
    using upt_split_at[OF kn] by (simp add: after_events_def)
  then show ?thesis by (simp add: make_request_unfold)
qed

lemma make_request_goes_on_all:
  assumes pre: "\<And>i. i < nat mr \<Longrightarrow> goes_on server i = Some (w i)"
  shows "make_request c now mr server =
           (Inr None, fst (rate_limit c now),
            snd (rate_limit c now) @ concat (map (\<lambda>i. [Get, Sleep (w i)]) [0..<nat mr]))"
proof -
  have "retry_loop mr server ([0..<nat mr] @ []) =
        after_events (concat (map (\<lambda>i. [Get, Sleep (w i)]) [0..<nat mr]))
          (retry_loop mr server [])"
    by (rule retry_loop_prefix) (use pre in simp)
  then have "retry_loop mr server [0..<nat mr] =
        (Inr None, concat (map (\<lambda>i. [Get, Sleep (w i)]) [0..<nat mr]))"
    by (simp add: after_events_def)
  then show ?thesis by (simp add: make_request_unfold)
qed

text \<open>
  C4. If the first \<open>k\<close> responses have a status of 500 or more and the next one is a
  200, with \<open>k\<close> below \<^verbatim>\<open>max_retries\<close>, the call returns the body of the 200 after
  \<open>k + 1\<close> requests and exactly \<open>k\<close> backoff sleeps, of 1, 2, ..., \<open>2 ^ (k - 1)\<close>. If all
  \<^verbatim>\<open>max_retries\<close> responses have such a status, the call returns \<^verbatim>\<open>None\<close> and has made
  \<^verbatim>\<open>max_retries\<close> requests, no more.
\<close>

theorem make_request_server_errors:
  "(int k < max_retries \<and> (\<forall>i<k. server_error (server i)) \<and> server k = Response 200 hdr body
      \<longrightarrow> make_request c now max_retries server =
            (Inr (Some body), fst (rate_limit c now),
             snd (rate_limit c now) @ concat (map (\<lambda>i. [Get, Sleep (2 ^ i)]) [0..<k]) @ [Get]))
   \<and> ((\<forall>i<nat max_retries. server_error (server i))
      \<longrightarrow> make_request c now max_retries server =
            (Inr None, fst (rate_limit c now),
             snd (rate_limit c now)
               @ concat (map (\<lambda>i. [Get, Sleep (2 ^ i)]) [0..<nat max_retries]))
          \<and> count_list (snd (snd (make_request c now max_retries server))) Get
              = nat max_retries)"
proof (intro conjI impI)
  assume h: "int k < max_retries \<and> (\<forall>i<k. server_error (server i))
             \<and> server k = Response 200 hdr body"
  then have kn: "k < nat max_retries" by linarith
  show "make_request c now max_retries server =
            (Inr (Some body), fst (rate_limit c now),
             snd (rate_limit c now) @ concat (map (\<lambda>i. [Get, Sleep (2 ^ i)]) [0..<k]) @ [Get])"
    by (rule make_request_goes_on_then_200[OF kn]) (use h server_error_goes_on in auto)
next
  assume h: "\<forall>i<nat max_retries. server_error (server i)"
  show eq: "make_request c now max_retries server =
            (Inr None, fst (rate_limit c now),
             snd (rate_limit c now)
               @ concat (map (\<lambda>i. [Get, Sleep (2 ^ i)]) [0..<nat max_retries]))"
    by (rule make_request_goes_on_all) (use h server_error_goes_on in auto)
  show "count_list (snd (snd (make_request c now max_retries server))) Get = nat max_retries"
    by (simp add: eq count_get_rate_limit count_get_rounds)
qed

theorem make_request_server_errors_witness:
  "make_request fresh_client 100 3 two_500_then_200 =
     (Inr (Some (PDict [(''success'', PBool True)])), fresh_client\<lparr>last_request_time := 100\<rparr>,
      [RateLimit, Get, Sleep 1, Get, Sleep 2, Get])
   \<and> make_request fresh_client 100 2 always_500 =
       (Inr None, fresh_client\<lparr>last_request_time := 100\<rparr>,
        [RateLimit, Get, Sleep 1, Get, Sleep 2])
   \<and> count_list (snd (snd (make_request fresh_client 100 2 always_500))) Get = 2"
proof -
  have two: "(2::nat) < 3" "\<forall>i<2. server_error (two_500_then_200 i)"
    "two_500_then_200 2 = Response 200 Absent (PDict [(''success'', PBool True)])"
    by (simp_all add: two_500_then_200_def)
  have all: "\<forall>i<nat 2. server_error (always_500 i)"
    by (simp add: always_500_def)
  have rl: "rate_limit fresh_client 100 = (fresh_client\<lparr>last_request_time := 100\<rparr>, [RateLimit])"
    by (simp add: rate_limit_def fresh_client_def)
  have upt: "[0..<2] = [0, Suc 0]" by (simp add: upt_rec)
  show ?thesis
    using make_request_server_errors
            [of 2 3 two_500_then_200 Absent "PDict [(''success'', PBool True)]" fresh_client 100]
          make_request_server_errors [of 0 2 always_500 Absent PNone fresh_client 100]
          two all
    by (simp add: rl upt)
qed

text \<open>
  C2, as the code has it. A 429 response makes the client sleep the retry-after value of
  the response (60 when the header is absent) and go on to the next attempt of the
  \<^verbatim>\<open>for\<close> loop, so it uses up one of the \<^verbatim>\<open>max_retries\<close> attempts: \<open>k\<close> such responses
  followed by a 200, with \<open>k\<close> below \<^verbatim>\<open>max_retries\<close>, give the body of the 200 after
  \<open>k\<close> sleeps; \<^verbatim>\<open>max_retries\<close> such responses in a row give \<^verbatim>\<open>None\<close> after exactly
  \<^verbatim>\<open>max_retries\<close> requests.
\<close>

theorem make_request_throttled:
  "(int k < max_retries \<and> (\<forall>i<k. throttled (server i) (w i)) \<and> server k = Response 200 hdr body
      \<longrightarrow> make_request c now max_retries server =
            (Inr (Some body), fst (rate_limit c now),
             snd (rate_limit c now)
               @ concat (map (\<lambda>i. [Get, Sleep (of_int (w i))]) [0..<k]) @ [Get]))
   \<and> ((\<forall>i<nat max_retries. throttled (server i) (w i))
      \<longrightarrow> make_request c now max_retries server =
            (Inr None, fst (rate_limit c now),
             snd (rate_limit c now)
               @ concat (map (\<lambda>i. [Get, Sleep (of_int (w i))]) [0..<nat max_retries]))
          \<and> count_list (snd (snd (make_request c now max_retries server))) Get
              = nat max_retries)"
proof (intro conjI impI)
  assume h: "int k < max_retries \<and> (\<forall>i<k. throttled (server i) (w i))
             \<and> server k = Response 200 hdr body"
  then have kn: "k < nat max_retries" by linarith
  show "make_request c now max_retries server =
            (Inr (Some body), fst (rate_limit c now),
             snd (rate_limit c now)
               @ concat (map (\<lambda>i. [Get, Sleep (of_int (w i))]) [0..<k]) @ [Get])"
    by (rule make_request_goes_on_then_200[OF kn]) (use h throttled_goes_on in auto)
next
  assume h: "\<forall>i<nat max_retries. throttled (server i) (w i)"
  show eq: "make_request c now max_retries server =
            (Inr None, fst (rate_limit c now),
             snd (rate_limit c now)
               @ concat (map (\<lambda>i. [Get, Sleep (of_int (w i))]) [0..<nat max_retries]))"
    by (rule make_request_goes_on_all) (use h throttled_goes_on in auto)
  show "count_list (snd (snd (make_request c now max_retries server))) Get = nat max_retries"
    by (simp add: eq count_get_rate_limit count_get_rounds)
qed

theorem make_request_throttled_witness:
  "make_request fresh_client 100 5 one_429_then_200 =
     (Inr (Some (PDict [(''success'', PBool True)])), fresh_client\<lparr>last_request_time := 100\<rparr>,
      [RateLimit, Get, Sleep 1, Get])
   \<and> make_request fresh_client 100 2 always_429 =
       (Inr None, fresh_client\<lparr>last_request_time := 100\<rparr>,
        [RateLimit, Get, Sleep 60, Get, Sleep 60])
   \<and> count_list (snd (snd (make_request fresh_client 100 2 always_429))) Get = 2"
proof -
  have one: "(1::nat) < 5" "\<forall>i<1. throttled (one_429_then_200 i) 1"
    "one_429_then_200 1 = Response 200 Absent (PDict [(''success'', PBool True)])"
    by (simp_all add: one_429_then_200_def)
  have all: "\<forall>i<nat 2. throttled (always_429 i) 60"
    by (simp add: always_429_def)
  have rl: "rate_limit fresh_client 100 = (fresh_client\<lparr>last_request_time := 100\<rparr>, [RateLimit])"
    by (simp add: rate_limit_def fresh_client_def)
  have upt: "[0..<2] = [0, Suc 0]" by (simp add: upt_rec)
  show ?thesis
    using make_request_throttled
            [of 1 5 one_429_then_200 "\<lambda>i. 1" Absent "PDict [(''success'', PBool True)]"
                fresh_client 100]
          make_request_throttled [of 0 2 always_429 "\<lambda>i. 60" Absent PNone fresh_client 100]
          one all
    by (simp add: rl upt)
qed

text \<open>
  C2, as the claim has it, fails: with the default of five attempts and a server that
  answers 429 every time, the call returns \<^verbatim>\<open>None\<close> after the fifth 429.
\<close>

theorem make_request_always_429_fails:
  "make_request fresh_client 100 5 always_429 =
     (Inr None, fresh_client\<lparr>last_request_time := 100\<rparr>,
      [RateLimit, Get, Sleep 60, Get, Sleep 60, Get, Sleep 60, Get, Sleep 60, Get, Sleep 60])"
  by (simp add: make_request_def rate_limit_def fresh_client_def always_429_def
                after_events_def upt_rec)

text \<open>
  C9, as the code has it. A call of \<^verbatim>\<open>_make_request\<close> performs the rate-limit step
  exactly once, before its first attempt; the attempts of the retry loop that follow are
  not preceded by it. The step sleeps for what is left of \<^verbatim>\<open>rate_limit_delay\<close> since the
  time stored by the client's previous step, and stores the time at which it ends.
\<close>

theorem make_request_rate_limit_once:
  "(\<exists>es. snd (snd (make_request c now max_retries server)) = RateLimit # es
         \<and> RateLimit \<notin> set es)
   \<and> fst (snd (make_request c now max_retries server)) = fst (rate_limit c now)
   \<and> rate_limit c now =
       (c\<lparr>last_request_time := max now (last_request_time c + rate_limit_delay c)\<rparr>,
        if now - last_request_time c < rate_limit_delay c
        then [RateLimit, Sleep (rate_limit_delay c - (now - last_request_time c))]
        else [RateLimit])"
proof -
  have rl: "rate_limit c now =
       (c\<lparr>last_request_time := max now (last_request_time c + rate_limit_delay c)\<rparr>,
        if now - last_request_time c < rate_limit_delay c
        then [RateLimit, Sleep (rate_limit_delay c - (now - last_request_time c))]
        else [RateLimit])"
    by (auto simp: rate_limit_def Let_def max_def)
  have "snd (snd (make_request c now max_retries server)) =
          RateLimit # tl (snd (rate_limit c now))
            @ snd (retry_loop max_retries server [0..<nat max_retries])"
    by (simp add: make_request_unfold rl)
  moreover have "RateLimit \<notin> set (tl (snd (rate_limit c now))
            @ snd (retry_loop max_retries server [0..<nat max_retries]))"
    using retry_loop_no_rate_limit[of max_retries server "[0..<nat max_retries]"]
    by (simp add: rl)
  ultimately show ?thesis using rl by (simp add: make_request_unfold)
qed

theorem make_request_rate_limit_once_witness:
  "snd (snd (make_request fresh_client 100 3 two_500_then_200)) =
     [RateLimit, Get, Sleep 1, Get, Sleep 2, Get]
   \<and> rate_limit (fresh_client\<lparr>last_request_time := 100\<rparr>) (201 / 2) =
       (fresh_client\<lparr>last_request_time := 101\<rparr>, [RateLimit, Sleep (1 / 2)])"
  using make_request_rate_limit_once [of fresh_client 100 3 two_500_then_200]
        make_request_rate_limit_once [of "fresh_client\<lparr>last_request_time := 100\<rparr>" "201 / 2" 3
                                         two_500_then_200]
  by (simp add: make_request_def fresh_client_def two_500_then_200_def after_events_def upt_rec)

text \<open>
  C9, as the claim has it, fails: after a 500 the second and third attempts follow a
  backoff sleep only, with no rate-limit step before them.
\<close>

theorem make_request_retry_not_rate_limited:
  "\<not> rate_limited_attempts False (snd (snd (make_request fresh_client 100 3 two_500_then_200)))"
  by (simp add: make_request_def rate_limit_def fresh_client_def two_500_then_200_def
                after_events_def upt_rec)

section \<open>The checkpoint manager\<close>

lemma projects_dictE:
  assumes "projects_dict st p"
  obtains d where "st = PDict d" "map_of d ''projects'' = Some (PDict p)"
  using assms by (cases st) (auto simp: projects_dict_def)

lemma projects_dict_empty_state: "projects_dict empty_state []"
  by (simp add: projects_dict_def empty_state_def)

lemma get_project_progress_projects_dict:
  "projects_dict (state m) p \<Longrightarrow>
   get_project_progress m proj = (Inr (dict_get p proj (PInt 0)), m)"
  by (erule projects_dictE) (simp add: get_project_progress_def)

lemma update_project_progress_projects_dict:
  assumes "state m = PDict d" "map_of d ''projects'' = Some (PDict p)"
  shows "update_project_progress m proj v =
           (Inr (),
            \<lparr>state = PDict (AList.update ''projects'' (PDict (AList.update proj v p)) d),
             checkpoint_file =
               Json (PDict (AList.update ''projects'' (PDict (AList.update proj v p)) d))\<rparr>)"
  using assms by (simp add: update_project_progress_def save_checkpoint_def)

lemma projects_dict_update:
  "projects_dict (PDict (AList.update ''projects'' (PDict q) d)) q"
  by (simp add: projects_dict_def update_conv')

lemma dict_get_update:
  "dict_get (AList.update k v p) k' dflt = (if k' = k then v else dict_get p k' dflt)"
  by (simp add: dict_get_def update_conv')

lemma new_manager_Json: "new_manager (Json v) = Inr \<lparr>state = v, checkpoint_file = Json v\<rparr>"
  by (simp add: new_manager_def load_checkpoint_def)

text \<open>
  C6. On a manager whose state has the shape the manager writes, advancing a source to
  any integer \<open>n\<close> (so to any non-negative one) succeeds, and a fresh manager that loads
  the file written reads \<open>n\<close> for that source.
\<close>

theorem checkpoint_round_trip:
  assumes "projects_dict (state m) p"
  shows "\<exists>m' m2. update_project_progress m s (PInt n) = (Inr (), m')
           \<and> new_manager (checkpoint_file m') = Inr m2
           \<and> fst (get_project_progress m2 s) = Inr (PInt n)"
proof -
  from assms obtain d where d: "state m = PDict d" "map_of d ''projects'' = Some (PDict p)"
    by (rule projects_dictE)
  let ?st = "PDict (AList.update ''projects'' (PDict (AList.update s (PInt n) p)) d)"
  have "update_project_progress m s (PInt n) = (Inr (), \<lparr>state = ?st, checkpoint_file = Json ?st\<rparr>)"
    by (rule update_project_progress_projects_dict[OF d])
  moreover have "new_manager (Json ?st) = Inr \<lparr>state = ?st, checkpoint_file = Json ?st\<rparr>"
    by (rule new_manager_Json)
  moreover have "fst (get_project_progress \<lparr>state = ?st, checkpoint_file = Json ?st\<rparr> s)
                   = Inr (PInt n)"
    by (simp add: get_project_progress_def update_conv' dict_get_update)
  ultimately show ?thesis by simp
qed

theorem checkpoint_round_trip_witness:
  "update_project_progress \<lparr>state = empty_state, checkpoint_file = Missing\<rparr> ''KAFKA'' (PInt 100)
     = (Inr (), \<lparr>state = PDict [(''projects'', PDict [(''KAFKA'', PInt 100)])],
                 checkpoint_file = Json (PDict [(''projects'', PDict [(''KAFKA'', PInt 100)])])\<rparr>)
   \<and> persisted_progress (Json (PDict [(''projects'', PDict [(''KAFKA'', PInt 100)])])) ''KAFKA''
       = Inr (PInt 100)"
  using checkpoint_round_trip
          [of "\<lparr>state = empty_state, checkpoint_file = Missing\<rparr>" "[]" "''KAFKA''" 100]
        projects_dict_empty_state
  by (simp add: update_project_progress_def save_checkpoint_def empty_state_def
                persisted_progress_def new_manager_def load_checkpoint_def
                get_project_progress_def dict_get_def)

lemma load_checkpoint_raises:
  "(\<exists>e. fst (load_checkpoint f) = Inl e)
     \<longleftrightarrow> f = Unreadable \<or> f = BadBytes \<or> f = TooDeep \<or> f = HugeNumber"
  by (cases f) (simp_all add: load_checkpoint_def)

text \<open>
  C7, as the code has it. The constructor gives a manager with the empty mapping
  \<^verbatim>\<open>{'projects': {}}\<close> when the file is missing and when \<^verbatim>\<open>json.load\<close> rejects its text
  with \<^verbatim>\<open>JSONDecodeError\<close>; the warning is logged in the second case and in no other.
  When \<^verbatim>\<open>json.load\<close> decodes the text, the manager holds the decoded value as it is,
  whatever its shape, so a state that loading returns is the empty mapping or the
  decoded value. A progress query on a manager loaded from a missing or rejected file
  returns 0 for every source; on one loaded from a decoded value that is a dict with a
  dict under \<^verbatim>\<open>'projects'\<close> it returns the offset stored for the source, or 0 when
  none is stored.
\<close>

theorem new_manager_loads:
  "(f = Missing \<or> f = NotJson \<longrightarrow>
      new_manager f = Inr \<lparr>state = empty_state, checkpoint_file = f\<rparr>
      \<and> persisted_progress f s = Inr (PInt 0))
   \<and> (WarningCorrupted \<in> set (snd (load_checkpoint f)) \<longleftrightarrow> f = NotJson)
   \<and> new_manager (Json v) = Inr \<lparr>state = v, checkpoint_file = Json v\<rparr>
   \<and> (fst (load_checkpoint f) = Inr st \<longrightarrow>
        (st = empty_state \<and> (f = Missing \<or> f = NotJson)) \<or> f = Json st)
   \<and> (projects_dict v p \<longrightarrow>
        persisted_progress (Json v) s
          = Inr (case map_of p s of Some off \<Rightarrow> off | None \<Rightarrow> PInt 0))"
proof (intro conjI impI)
  assume f: "f = Missing \<or> f = NotJson"
  then show m: "new_manager f = Inr \<lparr>state = empty_state, checkpoint_file = f\<rparr>"
    by (auto simp: new_manager_def load_checkpoint_def)
  have "fst (get_project_progress \<lparr>state = empty_state, checkpoint_file = f\<rparr> s)
          = Inr (PInt 0)"
    using get_project_progress_projects_dict
            [of "\<lparr>state = empty_state, checkpoint_file = f\<rparr>" "[]" s]
          projects_dict_empty_state
    by (simp add: dict_get_def)
  then show "persisted_progress f s = Inr (PInt 0)"
    by (simp add: persisted_progress_def m)
next
  show "WarningCorrupted \<in> set (snd (load_checkpoint f)) \<longleftrightarrow> f = NotJson"
    by (cases f) (simp_all add: load_checkpoint_def)
next
  show "new_manager (Json v) = Inr \<lparr>state = v, checkpoint_file = Json v\<rparr>"
    by (rule new_manager_Json)
next
  assume "fst (load_checkpoint f) = Inr st"
  then show "(st = empty_state \<and> (f = Missing \<or> f = NotJson)) \<or> f = Json st"
    by (cases f) (auto simp: load_checkpoint_def)
next
  assume pd: "projects_dict v p"
  have "persisted_progress (Json v) s
          = fst (get_project_progress \<lparr>state = v, checkpoint_file = Json v\<rparr> s)"
    by (simp add: persisted_progress_def new_manager_Json)
  also have "\<dots> = Inr (dict_get p s (PInt 0))"
    using get_project_progress_projects_dict[of "\<lparr>state = v, checkpoint_file = Json v\<rparr>" p s] pd
    by simp
  finally show "persisted_progress (Json v) s
          = Inr (case map_of p s of Some off \<Rightarrow> off | None \<Rightarrow> PInt 0)"
    by (simp add: dict_get_def)
qed

theorem new_manager_loads_witness:
  "new_manager NotJson = Inr \<lparr>state = empty_state, checkpoint_file = NotJson\<rparr>
   \<and> persisted_progress NotJson ''KAFKA'' = Inr (PInt 0)
   \<and> WarningCorrupted \<in> set (snd (load_checkpoint NotJson))
   \<and> persisted_progress (Json (PDict [(''projects'', PDict [(''KAFKA'', PInt 100)])])) ''KAFKA''
       = Inr (PInt 100)
   \<and> persisted_progress (Json (PDict [(''projects'', PDict [(''KAFKA'', PInt 100)])])) ''SPARK''
       = Inr (PInt 0)"
proof -
  have pd: "projects_dict (PDict [(''projects'', PDict [(''KAFKA'', PInt 100)])])
              [(''KAFKA'', PInt 100)]"
    by (simp add: projects_dict_def)
  have ld: "fst (load_checkpoint NotJson) = Inr empty_state"
    by (simp add: load_checkpoint_def)
  show ?thesis
    using new_manager_loads
            [of NotJson "''KAFKA''" "PDict [(''projects'', PDict [(''KAFKA'', PInt 100)])]"
                empty_state "[(''KAFKA'', PInt 100)]"]
          new_manager_loads
            [of NotJson "''SPARK''" "PDict [(''projects'', PDict [(''KAFKA'', PInt 100)])]"
                empty_state "[(''KAFKA'', PInt 100)]"]
          pd ld
    by simp
qed

text \<open>
  C7, as the claim has it, fails: a checkpoint file holding the JSON text \<^verbatim>\<open>{}\<close> loads
  without an error, and the progress query on the loaded state raises \<^verbatim>\<open>KeyError\<close>.
\<close>

theorem load_checkpoint_empty_object:
  "new_manager (Json (PDict [])) = Inr \<lparr>state = PDict [], checkpoint_file = Json (PDict [])\<rparr>
   \<and> fst (get_project_progress \<lparr>state = PDict [], checkpoint_file = Json (PDict [])\<rparr> ''KAFKA'')
       = Inl KeyError"
  by (simp add: new_manager_def load_checkpoint_def get_project_progress_def)

text \<open>
  C10. On a manager whose state has the shape the manager writes, advancing source \<open>s\<close>
  succeeds, sets the offset of \<open>s\<close>, and leaves the offset of every other source as it
  was, in the manager's state and in the file written (as a fresh manager reads it);
  the entries of the state other than \<^verbatim>\<open>'projects'\<close> are unchanged too. A progress query
  on any manager gives the manager back unchanged.
\<close>

theorem update_project_progress_frame:
  assumes "state m = PDict d" and "map_of d ''projects'' = Some (PDict p)"
  shows "\<exists>m' d'. update_project_progress m s v = (Inr (), m')
           \<and> state m' = PDict d' \<and> checkpoint_file m' = Json (state m')
           \<and> fst (get_project_progress m' s) = Inr v
           \<and> (\<forall>s'. s' \<noteq> s \<longrightarrow>
                 fst (get_project_progress m' s') = fst (get_project_progress m s')
                 \<and> persisted_progress (checkpoint_file m') s' = fst (get_project_progress m s'))
           \<and> (\<forall>k. k \<noteq> ''projects'' \<longrightarrow> map_of d' k = map_of d k)
           \<and> snd (get_project_progress m0 s0) = m0"
proof -
  let ?d' = "AList.update ''projects'' (PDict (AList.update s v p)) d"
  let ?m' = "\<lparr>state = PDict ?d', checkpoint_file = Json (PDict ?d')\<rparr>"
  have upd: "update_project_progress m s v = (Inr (), ?m')"
    by (rule update_project_progress_projects_dict[OF assms])
  have pd: "projects_dict (state m) p"
    using assms by (simp add: projects_dict_def)
  have pd': "projects_dict (state ?m') (AList.update s v p)"
    by (simp add: projects_dict_update)
  have get: "get_project_progress m s' = (Inr (dict_get p s' (PInt 0)), m)" for s'
    by (rule get_project_progress_projects_dict[OF pd])
  have get': "get_project_progress ?m' s' = (Inr (dict_get (AList.update s v p) s' (PInt 0)), ?m')"
    for s'
    by (rule get_project_progress_projects_dict[OF pd'])
  have pers: "persisted_progress (Json (PDict ?d')) s' = fst (get_project_progress ?m' s')"
    for s'
    by (simp add: persisted_progress_def new_manager_Json)
  have others: "\<forall>k. k \<noteq> ''projects'' \<longrightarrow> map_of ?d' k = map_of d k"
    by (simp add: update_conv')
  have pure: "snd (get_project_progress m0 s0) = m0"
    by (simp add: get_project_progress_def split: pyval.splits option.splits)
  show ?thesis
    apply (rule exI[of _ ?m'], rule exI[of _ ?d'])
    using upd others pure by (simp add: pers get get' dict_get_update)
qed

theorem update_project_progress_frame_witness:
  "update_project_progress
     \<lparr>state = PDict [(''projects'', PDict [(''KAFKA'', PInt 100)])], checkpoint_file = Missing\<rparr>
     ''SPARK'' (PInt 200)
   = (Inr (),
      \<lparr>state = PDict [(''projects'', PDict [(''KAFKA'', PInt 100), (''SPARK'', PInt 200)])],
       checkpoint_file =
         Json (PDict [(''projects'', PDict [(''KAFKA'', PInt 100), (''SPARK'', PInt 200)])])\<rparr>)
   \<and> persisted_progress
        (Json (PDict [(''projects'', PDict [(''KAFKA'', PInt 100), (''SPARK'', PInt 200)])]))
        ''KAFKA'' = Inr (PInt 100)"
  using update_project_progress_frame
     [of "\<lparr>state = PDict [(''projects'', PDict [(''KAFKA'', PInt 100)])],
           checkpoint_file = Missing\<rparr>"
         "[(''projects'', PDict [(''KAFKA'', PInt 100)])]" "[(''KAFKA'', PInt 100)]"
         "''SPARK''" "PInt 200"]
  by (simp add: update_project_progress_def save_checkpoint_def persisted_progress_def
                new_manager_def load_checkpoint_def get_project_progress_def dict_get_def)

section \<open>The transformer\<close>

lemma of_char_below_256: "n < 256 \<Longrightarrow> (of_char c :: nat) = n \<longleftrightarrow> c = char_of n"
proof
  assume "(of_char c :: nat) = n"
  then have "char_of (of_char c :: nat) = char_of n" by simp
  then show "c = char_of n" by simp
next
  assume n: "n < 256" and "c = char_of n"
  then show "(of_char c :: nat) = n" by simp
qed

lemma lower_char_eq_letter:
  assumes l: "97 \<le> (of_char l :: nat)" "(of_char l :: nat) \<le> 122"
  shows "lower_char c = l \<longleftrightarrow> c = l \<or> c = char_of ((of_char l :: nat) - 32)"
proof (cases "(65 \<le> (of_char c::nat) \<and> (of_char c::nat) \<le> 90)
              \<or> (192 \<le> (of_char c::nat) \<and> (of_char c::nat) \<le> 222 \<and> (of_char c::nat) \<noteq> 215)")
  case True
  then have lt: "(of_char c :: nat) + 32 < 256" by auto
  have cl: "c \<noteq> l" using True l by auto
  have small: "(of_char l :: nat) - 32 < 256" using l by simp
  have "lower_char c = l \<longleftrightarrow> (of_char c :: nat) + 32 = of_char l"
    using True lt by (simp add: lower_char_def char_of_eq_iff take_bit_eq_mod)
  also have "\<dots> \<longleftrightarrow> (of_char c :: nat) = of_char l - 32" using l by auto
  also have "\<dots> \<longleftrightarrow> c = char_of ((of_char l :: nat) - 32)"
    by (rule of_char_below_256[OF small])
  finally show ?thesis using cl by simp
next
  case False
  then have same: "lower_char c = c" by (auto simp: lower_char_def)
  have small: "(of_char l :: nat) - 32 < 256" using l by simp
  have "c \<noteq> char_of ((of_char l :: nat) - 32)"
  proof
    assume "c = char_of ((of_char l :: nat) - 32)"
    then have "(of_char c :: nat) = of_char l - 32"
      using of_char_below_256[OF small, of c] by simp
    then show False using False l by auto
  qed
  then show ?thesis using same by auto
qed

lemma lower_char_b: "lower_char c = CHR ''b'' \<longleftrightarrow> c = CHR ''b'' \<or> c = CHR ''B''"
proof -
  have "char_of (of_char CHR ''b'' - 32 :: nat) = CHR ''B''"
    by (simp add: char_of_eq_iff)
  then show ?thesis
    using lower_char_eq_letter[of "CHR ''b''" c] by simp
qed

lemma lower_char_u: "lower_char c = CHR ''u'' \<longleftrightarrow> c = CHR ''u'' \<or> c = CHR ''U''"
proof -
  have "char_of (of_char CHR ''u'' - 32 :: nat) = CHR ''U''"
    by (simp add: char_of_eq_iff)
  then show ?thesis
    using lower_char_eq_letter[of "CHR ''u''" c] by simp
qed

lemma lower_char_g: "lower_char c = CHR ''g'' \<longleftrightarrow> c = CHR ''g'' \<or> c = CHR ''G''"
proof -
  have "char_of (of_char CHR ''g'' - 32 :: nat) = CHR ''G''"
    by (simp add: char_of_eq_iff)
  then show ?thesis
    using lower_char_eq_letter[of "CHR ''g''" c] by simp
qed

lemma lower_bug:
  "lower t = ''bug'' \<longleftrightarrow>
     t \<in> {''bug'', ''Bug'', ''bUg'', ''buG'', ''BUg'', ''BuG'', ''bUG'', ''BUG''}"
proof -
  have "lower t = ''bug'' \<longleftrightarrow>
        (\<exists>a b c. t = [a, b, c] \<and> lower_char a = CHR ''b'' \<and> lower_char b = CHR ''u''
                  \<and> lower_char c = CHR ''g'')"
    by (auto simp: lower_def map_eq_Cons_conv)
  then show ?thesis
    by (auto simp: lower_char_b lower_char_u lower_char_g)
qed

lemma lower_Bug: "lower ''Bug'' = ''bug''"
  by (simp add: lower_bug)

text \<open>
  C3. On an issue type \<open>t\<close>, a description \<open>d\<close> (both strings) and a comment list
  \<open>cs\<close> the classifier returns one of four labels, by the first rule that matches:
  \<^verbatim>\<open>question_answering\<close> exactly when \<open>t\<close> lowercased is \<^verbatim>\<open>bug\<close> and there are more
  than 2 comments; otherwise \<^verbatim>\<open>summarization\<close> exactly when \<open>d\<close> is longer than 500;
  otherwise \<^verbatim>\<open>classification\<close> exactly when \<open>t\<close> lowercased is one of \<^verbatim>\<open>bug\<close>,
  \<^verbatim>\<open>improvement\<close>, \<^verbatim>\<open>new feature\<close>, \<^verbatim>\<open>task\<close>; otherwise \<^verbatim>\<open>general\<close>. The strings
  that lowercase to \<^verbatim>\<open>bug\<close> are its eight spellings in upper and lower case. The type
  \<^verbatim>\<open>Bug\<close> with three comments gives \<^verbatim>\<open>question_answering\<close> whatever the description.
\<close>

theorem determine_training_task_priority:
  "(determine_training_task (PStr t) (PStr d) cs = Inr ''question_answering''
      \<longleftrightarrow> lower t = ''bug'' \<and> 2 < length cs)
   \<and> (determine_training_task (PStr t) (PStr d) cs = Inr ''summarization''
      \<longleftrightarrow> \<not> (lower t = ''bug'' \<and> 2 < length cs) \<and> 500 < length d)
   \<and> (determine_training_task (PStr t) (PStr d) cs = Inr ''classification''
      \<longleftrightarrow> \<not> (lower t = ''bug'' \<and> 2 < length cs) \<and> \<not> 500 < length d
          \<and> lower t \<in> {''bug'', ''improvement'', ''new feature'', ''task''})
   \<and> (determine_training_task (PStr t) (PStr d) cs = Inr ''general''
      \<longleftrightarrow> \<not> (lower t = ''bug'' \<and> 2 < length cs) \<and> \<not> 500 < length d
          \<and> lower t \<notin> {''bug'', ''improvement'', ''new feature'', ''task''})
   \<and> (lower t = ''bug'' \<longleftrightarrow>
        t \<in> {''bug'', ''Bug'', ''bUg'', ''buG'', ''BUg'', ''BuG'', ''bUG'', ''BUG''})
   \<and> determine_training_task (PStr ''Bug'') (PStr d) [c1, c2, c3] = Inr ''question_answering''"
proof -
  have "determine_training_task (PStr ''Bug'') (PStr d) [c1, c2, c3] = Inr ''question_answering''"
    by (simp add: determine_training_task_def lower_Bug)
  moreover have "lower t = ''bug'' \<longleftrightarrow>
        t \<in> {''bug'', ''Bug'', ''bUg'', ''buG'', ''BUg'', ''BuG'', ''bUG'', ''BUG''}"
    by (rule lower_bug)
  moreover have "determine_training_task (PStr t) (PStr d) cs =
    Inr (if lower t = ''bug'' \<and> 2 < length cs then ''question_answering''
         else if 500 < length d then ''summarization''
         else if lower t \<in> {''bug'', ''improvement'', ''new feature'', ''task''}
              then ''classification'' else ''general'')"
    by (simp add: determine_training_task_def)
  ultimately show ?thesis by simp
qed

lemma length_long_description: "length long_description = 600"
  unfolding long_description_def by (rule length_replicate)

theorem determine_training_task_priority_witness:
  "determine_training_task (PStr ''Task'') (PStr long_description) [] = Inr ''summarization''
   \<and> determine_training_task (PStr ''New Feature'') (PStr ''Short'') [] = Inr ''classification''
   \<and> determine_training_task (PStr ''Documentation'') (PStr ''Short'') [] = Inr ''general''
   \<and> determine_training_task (PStr ''BUG'') (PStr long_description) [PNone, PNone, PNone]
       = Inr ''question_answering''"
proof -
  have low: "lower ''Task'' = ''task''" "lower ''New Feature'' = ''new feature''"
    "lower ''Documentation'' = ''documentation''" "lower ''BUG'' = ''bug''"
    by (simp_all add: lower_def lower_char_def char_of_eq_iff)
  show ?thesis
    using determine_training_task_priority [of "''Task''" long_description "[]"]
          determine_training_task_priority [of "''New Feature''" "''Short''" "[]"]
          determine_training_task_priority [of "''Documentation''" "''Short''" "[]"]
          determine_training_task_priority
            [of "''BUG''" long_description "[PNone, PNone, PNone]"]
    by (simp add: low length_long_description)
qed

lemma lower_Unknown: "lower ''Unknown'' = ''unknown''"
  by (simp add: lower_def lower_char_def char_of_eq_iff)







lemma safe_get_one:
  "safe_get (PDict fd) [k] dflt =
     (case map_of fd k of None \<Rightarrow> dflt | Some v \<Rightarrow> if truthy v then v else dflt)"
  by (simp add: dict_get_def split: option.splits)








section \<open>The orchestrator\<close>

lemma as_dicts_map_PDict: "as_dicts (map PDict ds) = Inr ds"
  by (induction ds) simp_all

lemma process_issues_frame:
  "checkpoint_manager (process_issues a ds s) = checkpoint_manager s
   \<and> search_calls (process_issues a ds s) = search_calls s
   \<and> output_file (process_issues a ds s) = output_file s @ written a ds
   \<and> total_issues (process_issues a ds s) = total_issues s + length (written a ds)"
  by (induction ds arbitrary: s) (auto split: sum.splits)



lemma handle_completed_frame:
  "handle_completed a ks s = (r, s') \<Longrightarrow>
     checkpoint_manager s' = checkpoint_manager s \<and> search_calls s' = search_calls s
     \<and> output_file s' = output_file s \<and> total_issues s' = total_issues s"
proof (induction ks arbitrary: s)
  case Nil
  then show ?case by simp
next
  case (Cons k ks)
  show ?case
  proof (cases "hashable k")
    case False
    with Cons.prems show ?thesis by simp
  next
    case True
    show ?thesis
    proof (cases "get_issue_comments a k")
      case (Inl e)
      with True Cons.prems
      have "handle_completed a ks (s\<lparr>errors := errors s + 1\<rparr>) = (r, s')" by simp
      from Cons.IH[OF this] show ?thesis by simp
    next
      case (Inr cs)
      with True Cons.prems
      have "handle_completed a ks (s\<lparr>total_comments := total_comments s + length cs\<rparr>)
              = (r, s')" by simp
      from Cons.IH[OF this] show ?thesis by simp
    qed
  qed
qed

lemma fetch_comments_frame:
  "fetch_comments a keys s = (r, s') \<Longrightarrow>
     checkpoint_manager s' = checkpoint_manager s \<and> search_calls s' = search_calls s
     \<and> output_file s' = output_file s \<and> total_issues s' = total_issues s"
  unfolding fetch_comments_def by (rule handle_completed_frame)

lemma handle_completed_hashable:
  "list_all hashable ks \<Longrightarrow> \<exists>s'. handle_completed a ks s = (None, s')"
  by (induction ks arbitrary: s) (auto split: sum.splits)

lemma completion_order_hashable:
  "list_all hashable keys \<Longrightarrow> list_all hashable (completion_order a keys)"
  by (auto simp: completion_order_def list_all_iff)

lemma fetch_comments_hashable:
  "list_all hashable keys \<Longrightarrow> \<exists>s'. fetch_comments a keys s = (None, s')"
  unfolding fetch_comments_def
  by (rule handle_completed_hashable) (rule completion_order_hashable)

lemma completion_order_submission:
  assumes "completion_rank a keys = (\<lambda>i. i)"
  shows "completion_order a keys = keys"
proof -
  have "sort_key (\<lambda>i. i) [0..<length keys] = [0..<length keys]"
    by (rule sort_key_id_if_sorted) simp
  then show ?thesis
    by (simp add: completion_order_def assms map_nth)
qed

lemma py_ge_ints: "py_ge (PInt x) (PInt y) = Inr (y \<le> x)"
  by (simp add: py_ge_def)

lemma scrape_page_search_calls:
  "search_calls (flow_state (scrape_page a proj start_at s)) = search_calls s @ [start_at]"
proof -
  have fc: "fetch_comments a keys s0 = (r, s1) \<Longrightarrow> search_calls s1 = search_calls s0"
    for keys s0 r s1 using fetch_comments_frame by blast
  show ?thesis
    unfolding scrape_page_def Let_def
    by (auto split: pyval.splits sum.splits prod.splits option.splits dest!: fc
             simp: process_issues_frame)
qed

lemma scrape_page_empty:
  assumes "page_at a proj off [] T"
  shows "scrape_page a proj (PInt off) s = Break (s\<lparr>search_calls := search_calls s @ [PInt off]\<rparr>)"
proof -
  from assms obtain r where r: "search_issues a proj (PInt off) = PDict r" "r \<noteq> []"
    "dict_get r ''issues'' (PList []) = PList []"
    by (auto simp: page_at_def split: pyval.splits)
  show ?thesis by (simp add: scrape_page_def r)
qed

lemma scrape_page_good:
  assumes page: "page_at a proj off ds T" and ne: "ds \<noteq> []"
    and wf: "projects_dict (state (checkpoint_manager s)) p"
  shows "\<exists>s'. scrape_page a proj (PInt off) s =
               (if T \<le> off + int (length ds) then Break s'
                else Continue (PInt (off + int (length ds))) s')
     \<and> search_calls s' = search_calls s @ [PInt off]
     \<and> output_file s' = output_file s @ written a ds
     \<and> total_issues s' = total_issues s + length (written a ds)
     \<and> projects_dict (state (checkpoint_manager s'))
          (AList.update proj (PInt (off + int (length ds))) p)
     \<and> checkpoint_file (checkpoint_manager s') = Json (state (checkpoint_manager s'))"
proof -
  from page obtain r where r: "search_issues a proj (PInt off) = PDict r" "r \<noteq> []"
    and issues: "dict_get r ''issues'' (PList []) = PList (map PDict ds)"
    and total: "dict_get r ''total'' (PInt 0) = PInt T"
    and keys: "list_all hashable (map item_key ds)"
    by (auto simp: page_at_def split: pyval.splits)
  let ?s = "s\<lparr>search_calls := search_calls s @ [PInt off]\<rparr>"
  from fetch_comments_hashable[OF keys]
  obtain s1 where s1: "fetch_comments a (map item_key ds) ?s = (None, s1)" by blast
  note f1 = fetch_comments_frame[OF s1]
  let ?s2 = "process_issues a ds s1"
  note f2 = process_issues_frame[of a ds s1]
  from wf obtain d where d: "state (checkpoint_manager s) = PDict d"
    "map_of d ''projects'' = Some (PDict p)"
    by (rule projects_dictE)
  have d2: "state (checkpoint_manager ?s2) = PDict d" using d f1 f2 by simp
  let ?n = "off + int (length ds)"
  let ?st = "PDict (AList.update ''projects'' (PDict (AList.update proj (PInt ?n) p)) d)"
  let ?m = "\<lparr>state = ?st, checkpoint_file = Json ?st\<rparr>"
  have upd: "update_project_progress (checkpoint_manager ?s2) proj (PInt ?n) = (Inr (), ?m)"
    by (rule update_project_progress_projects_dict[OF d2 d(2)])
  let ?s3 = "?s2\<lparr>checkpoint_manager := ?m\<rparr>"
  have page_eq: "scrape_page a proj (PInt off) s =
               (if T \<le> ?n then Break ?s3 else Continue (PInt ?n) ?s3)"
    using ne
    by (simp add: scrape_page_def r issues total as_dicts_map_PDict s1 upd py_ge_ints)
  have "search_calls ?s3 = search_calls s @ [PInt off]" using f1 f2 by simp
  moreover have "output_file ?s3 = output_file s @ written a ds" using f1 f2 by simp
  moreover have "total_issues ?s3 = total_issues s + length (written a ds)" using f1 f2 by simp
  moreover have "projects_dict (state (checkpoint_manager ?s3)) (AList.update proj (PInt ?n) p)"
    by (simp add: projects_dict_update)
  moreover have "checkpoint_file (checkpoint_manager ?s3) = Json (state (checkpoint_manager ?s3))"
    by simp
  ultimately show ?thesis using page_eq by blast
qed

lemma scrape_loop_first_call:
  assumes "scrape_loop a proj start_at s = Some y"
  shows "\<exists>rest. search_calls (snd y) = search_calls s @ start_at # rest"
  using assms
proof (induct a proj start_at s y rule: scrape_loop.raw_induct)
  case (1 loop a proj start_at s y)
  note sc = scrape_page_search_calls[of a proj start_at s]
  show ?case
  proof (cases "scrape_page a proj start_at s")
    case (Continue start_at' s')
    with 1(2) have l: "loop a proj start_at' s' = Some y" by simp
    have "scrape_loop a proj start_at s = scrape_loop a proj start_at' s'"
      by (subst scrape_loop.simps) (simp add: Continue)
    with 1(3) have "scrape_loop a proj start_at' s' = Some y" by simp
    from 1(1)[OF l this] obtain rest where
      "search_calls (snd y) = search_calls s' @ start_at' # rest" by blast
    moreover have "search_calls s' = search_calls s @ [start_at]" using sc Continue by simp
    ultimately show ?thesis by simp
  next
    case (Break s')
    with 1(2) have "y = (None, s')" by simp
    then show ?thesis using sc Break by simp
  next
    case (Raise e s')
    with 1(2) have "y = (Some e, s')" by simp
    then show ?thesis using sc Raise by simp
  qed
qed (rule assms)

lemma persisted_progress_Json:
  "projects_dict st q \<Longrightarrow> persisted_progress (Json st) proj = Inr (dict_get q proj (PInt 0))"
  by (simp add: persisted_progress_def new_manager_Json get_project_progress_projects_dict)

lemma scrape_loop_Break:
  "scrape_page a proj start_at s = Break s' \<Longrightarrow> scrape_loop a proj start_at s = Some (None, s')"
  by (subst scrape_loop.simps) simp

lemma scrape_loop_Continue:
  "scrape_page a proj start_at s = Continue start_at' s' \<Longrightarrow>
   scrape_loop a proj start_at s = scrape_loop a proj start_at' s'"
  by (subst scrape_loop.simps) simp


lemma plain_item_written:
  "transform_issue (plain_item k) [] =
     Inr ((default_record []) \<lparr>issue_id := PStr k,
            project := takeWhile (\<lambda>c. c \<noteq> CHR ''-'') k, title := PStr ''s''\<rparr>)"
  by (cases k)
     (simp_all add: transform_issue_def plain_item_def default_record_def dict_get_def
        project_of_def component_names_def determine_training_task_def lower_Unknown Let_def)

lemma page_at_five_items_2:
  "page_at five_items_api ''T'' 2 [plain_item ''T-3'', plain_item ''T-4''] 5"
  by (simp add: page_at_def five_items_api_def dict_get_def item_key_def plain_item_def)

lemma page_at_five_items_4: "page_at five_items_api ''T'' 4 [plain_item ''T-5''] 5"
  by (simp add: page_at_def five_items_api_def dict_get_def item_key_def plain_item_def)

lemma page_at_five_items_5: "page_at five_items_api ''T'' 5 [] 5"
  by (simp add: page_at_def five_items_api_def dict_get_def)

lemma resumed_scraper_projects:
  "projects_dict (state (checkpoint_manager resumed_scraper)) [(''T'', PInt 2)]"
  by (simp add: resumed_scraper_def projects_dict_def)

lemma comments_for_five_items: "comments_for five_items_api k = []"
  by (simp add: comments_for_def five_items_api_def)

lemma scrape_page_five_items_2:
  "scrape_page five_items_api ''T'' (PInt 2) resumed_scraper =
     Continue (PInt 4)
       \<lparr>checkpoint_manager =
          \<lparr>state = PDict [(''projects'', PDict [(''T'', PInt 4)])],
           checkpoint_file = Json (PDict [(''projects'', PDict [(''T'', PInt 4)])])\<rparr>,
        output_file = written five_items_api [plain_item ''T-3'', plain_item ''T-4''],
        total_issues = 2, total_comments = 0, errors = 0, search_calls = [PInt 2]\<rparr>"
  by (simp add: scrape_page_def completion_order_def five_items_api_def
        resumed_scraper_def dict_get_def
        fetch_comments_def comments_for_def item_key_def plain_item_written
        update_project_progress_def save_checkpoint_def py_ge_def Let_def)
     (simp add: plain_item_def)



text \<open>
  C5. With a checkpoint that holds the integer offset \<open>n\<close> for the source,
  \<^verbatim>\<open>scrape_project\<close> is the pagination loop started at \<open>n\<close>, and whenever it returns,
  the first search it made was at offset \<open>n\<close>. One turn of the loop searches at the
  current offset \<open>off\<close>; on an empty item list the loop stops; on a page of \<open>ds\<close> items
  the offset becomes \<open>off + length ds\<close>, the count of items fetched so far for the
  source, and the loop stops when that count has reached the reported total and
  otherwise goes on with a search at the new offset.
\<close>

theorem scrape_project_pagination:
  assumes "projects_dict (state (checkpoint_manager s)) p"
  shows "(map_of p proj = Some (PInt n) \<longrightarrow>
            scrape_project a proj s = scrape_loop a proj (PInt n) s
            \<and> (\<forall>e s'. scrape_project a proj s = Some (e, s') \<longrightarrow>
                  (\<exists>rest. search_calls s' = search_calls s @ PInt n # rest)))
     \<and> (page_at a proj off [] T \<longrightarrow>
            scrape_loop a proj (PInt off) s
              = Some (None, s\<lparr>search_calls := search_calls s @ [PInt off]\<rparr>))
     \<and> (page_at a proj off ds T \<and> ds \<noteq> [] \<and> T \<le> off + int (length ds) \<longrightarrow>
            (\<exists>s'. scrape_loop a proj (PInt off) s = Some (None, s')
                  \<and> search_calls s' = search_calls s @ [PInt off]
                  \<and> persisted_progress (checkpoint_file (checkpoint_manager s')) proj
                        = Inr (PInt (off + int (length ds)))))
     \<and> (page_at a proj off ds T \<and> ds \<noteq> [] \<and> off + int (length ds) < T \<longrightarrow>
            (\<exists>s'. scrape_loop a proj (PInt off) s
                      = scrape_loop a proj (PInt (off + int (length ds))) s'
                  \<and> search_calls s' = search_calls s @ [PInt off]
                  \<and> projects_dict (state (checkpoint_manager s'))
                        (AList.update proj (PInt (off + int (length ds))) p)))"
proof (intro conjI impI)
  assume n: "map_of p proj = Some (PInt n)"
  have "fst (get_project_progress (checkpoint_manager s) proj) = Inr (PInt n)"
    by (simp add: get_project_progress_projects_dict[OF assms] dict_get_def n)
  then show start: "scrape_project a proj s = scrape_loop a proj (PInt n) s"
    by (simp add: scrape_project_def)
  show "\<forall>e s'. scrape_project a proj s = Some (e, s') \<longrightarrow>
                  (\<exists>rest. search_calls s' = search_calls s @ PInt n # rest)"
    using scrape_loop_first_call[of a proj "PInt n" s] start by auto
next
  assume "page_at a proj off [] T"
  from scrape_page_empty[OF this]
  show "scrape_loop a proj (PInt off) s
              = Some (None, s\<lparr>search_calls := search_calls s @ [PInt off]\<rparr>)"
    by (rule scrape_loop_Break)
next
  let ?n = "off + int (length ds)"
  assume h: "page_at a proj off ds T \<and> ds \<noteq> [] \<and> T \<le> ?n"
  then have page: "page_at a proj off ds T" and ne: "ds \<noteq> []" and stop: "T \<le> ?n" by simp_all
  from scrape_page_good[OF page ne assms]
  obtain s' where pg: "scrape_page a proj (PInt off) s =
               (if T \<le> ?n then Break s' else Continue (PInt ?n) s')"
    and sc: "search_calls s' = search_calls s @ [PInt off]"
    and pd: "projects_dict (state (checkpoint_manager s')) (AList.update proj (PInt ?n) p)"
    and fl: "checkpoint_file (checkpoint_manager s') = Json (state (checkpoint_manager s'))"
    by blast
  have "scrape_loop a proj (PInt off) s = Some (None, s')"
    using pg stop by (simp add: scrape_loop_Break)
  moreover have "persisted_progress (checkpoint_file (checkpoint_manager s')) proj = Inr (PInt ?n)"
    by (simp add: fl persisted_progress_Json[OF pd] dict_get_update)
  ultimately show "\<exists>s'. scrape_loop a proj (PInt off) s = Some (None, s')
                  \<and> search_calls s' = search_calls s @ [PInt off]
                  \<and> persisted_progress (checkpoint_file (checkpoint_manager s')) proj
                        = Inr (PInt ?n)"
    using sc by blast
next
  let ?n = "off + int (length ds)"
  assume h: "page_at a proj off ds T \<and> ds \<noteq> [] \<and> ?n < T"
  then have page: "page_at a proj off ds T" and ne: "ds \<noteq> []" and more: "\<not> T \<le> ?n"
    by simp_all
  from scrape_page_good[OF page ne assms]
  obtain s' where pg: "scrape_page a proj (PInt off) s =
               (if T \<le> ?n then Break s' else Continue (PInt ?n) s')"
    and sc: "search_calls s' = search_calls s @ [PInt off]"
    and pd: "projects_dict (state (checkpoint_manager s')) (AList.update proj (PInt ?n) p)"
    by blast
  have "scrape_loop a proj (PInt off) s = scrape_loop a proj (PInt ?n) s'"
    using pg more by (simp add: scrape_loop_Continue)
  then show "\<exists>s'. scrape_loop a proj (PInt off) s = scrape_loop a proj (PInt ?n) s'
                  \<and> search_calls s' = search_calls s @ [PInt off]
                  \<and> projects_dict (state (checkpoint_manager s')) (AList.update proj (PInt ?n) p)"
    using sc pd by blast
qed

lemma scrape_page_five_items_4:
  "scrape_page five_items_api ''T'' (PInt 4)
     \<lparr>checkpoint_manager =
        \<lparr>state = PDict [(''projects'', PDict [(''T'', PInt 4)])],
         checkpoint_file = Json (PDict [(''projects'', PDict [(''T'', PInt 4)])])\<rparr>,
      output_file = out, total_issues = 2, total_comments = 0, errors = 0,
      search_calls = [PInt 2]\<rparr> =
     Break
       \<lparr>checkpoint_manager =
          \<lparr>state = PDict [(''projects'', PDict [(''T'', PInt 5)])],
           checkpoint_file = Json (PDict [(''projects'', PDict [(''T'', PInt 5)])])\<rparr>,
        output_file = out @ written five_items_api [plain_item ''T-5''],
        total_issues = 3, total_comments = 0, errors = 0, search_calls = [PInt 2, PInt 4]\<rparr>"
  by (simp add: scrape_page_def completion_order_def five_items_api_def dict_get_def
        fetch_comments_def comments_for_def item_key_def plain_item_written
        update_project_progress_def save_checkpoint_def py_ge_def Let_def)
     (simp add: plain_item_def)

theorem scrape_project_pagination_witness:
  "scrape_project five_items_api ''T'' resumed_scraper =
     Some (None,
       \<lparr>checkpoint_manager =
          \<lparr>state = PDict [(''projects'', PDict [(''T'', PInt 5)])],
           checkpoint_file = Json (PDict [(''projects'', PDict [(''T'', PInt 5)])])\<rparr>,
        output_file =
          written five_items_api [plain_item ''T-3'', plain_item ''T-4'', plain_item ''T-5''],
        total_issues = 3, total_comments = 0, errors = 0,
        search_calls = [PInt 2, PInt 4]\<rparr>)
   \<and> scrape_loop five_items_api ''T'' (PInt 5) resumed_scraper =
       Some (None, resumed_scraper\<lparr>search_calls := [PInt 5]\<rparr>)
   \<and> (\<exists>s'. scrape_loop five_items_api ''T'' (PInt 4) resumed_scraper = Some (None, s')
            \<and> search_calls s' = [PInt 4]
            \<and> persisted_progress (checkpoint_file (checkpoint_manager s')) ''T''
                  = Inr (PInt 5))
   \<and> (\<exists>s'. scrape_loop five_items_api ''T'' (PInt 2) resumed_scraper
                  = scrape_loop five_items_api ''T'' (PInt 4) s'
            \<and> search_calls s' = [PInt 2])"
proof -
  have n: "map_of [(''T'', PInt 2)] ''T'' = Some (PInt 2)" by simp
  have first: "scrape_project five_items_api ''T'' resumed_scraper
                 = scrape_loop five_items_api ''T'' (PInt 2) resumed_scraper"
    using scrape_project_pagination
            [OF resumed_scraper_projects, of "''T''" 2 five_items_api 2 5
                "[plain_item ''T-3'', plain_item ''T-4'']"] n
    by simp
  have last: "scrape_loop five_items_api ''T'' (PInt 5) resumed_scraper =
       Some (None, resumed_scraper\<lparr>search_calls := [PInt 5]\<rparr>)"
    using scrape_project_pagination
            [OF resumed_scraper_projects, of "''T''" 2 five_items_api 5 5 "[]"]
          page_at_five_items_5
    by (simp add: resumed_scraper_def)
  have full: "scrape_loop five_items_api ''T'' (PInt 2) resumed_scraper =
     Some (None,
       \<lparr>checkpoint_manager =
          \<lparr>state = PDict [(''projects'', PDict [(''T'', PInt 5)])],
           checkpoint_file = Json (PDict [(''projects'', PDict [(''T'', PInt 5)])])\<rparr>,
        output_file =
          written five_items_api [plain_item ''T-3'', plain_item ''T-4'', plain_item ''T-5''],
        total_issues = 3, total_comments = 0, errors = 0,
        search_calls = [PInt 2, PInt 4]\<rparr>)"
    by (simp add: scrape_loop_Continue[OF scrape_page_five_items_2]
                  scrape_loop_Break[OF scrape_page_five_items_4]
                  comments_for_five_items plain_item_written)
  have stop: "\<exists>s'. scrape_loop five_items_api ''T'' (PInt 4) resumed_scraper = Some (None, s')
            \<and> search_calls s' = [PInt 4]
            \<and> persisted_progress (checkpoint_file (checkpoint_manager s')) ''T''
                  = Inr (PInt 5)"
    using scrape_project_pagination
            [OF resumed_scraper_projects, of "''T''" 2 five_items_api 4 5 "[plain_item ''T-5'']"]
          page_at_five_items_4
    by (simp add: resumed_scraper_def)
  have more: "\<exists>s'. scrape_loop five_items_api ''T'' (PInt 2) resumed_scraper
                  = scrape_loop five_items_api ''T'' (PInt 4) s'
            \<and> search_calls s' = [PInt 2]"
    using scrape_project_pagination
            [OF resumed_scraper_projects, of "''T''" 2 five_items_api 2 5
                "[plain_item ''T-3'', plain_item ''T-4'']"]
          page_at_five_items_2
    by (auto simp: resumed_scraper_def)
  from first full have whole: "scrape_project five_items_api ''T'' resumed_scraper =
     Some (None,
       \<lparr>checkpoint_manager =
          \<lparr>state = PDict [(''projects'', PDict [(''T'', PInt 5)])],
           checkpoint_file = Json (PDict [(''projects'', PDict [(''T'', PInt 5)])])\<rparr>,
        output_file =
          written five_items_api [plain_item ''T-3'', plain_item ''T-4'', plain_item ''T-5''],
        total_issues = 3, total_comments = 0, errors = 0,
        search_calls = [PInt 2, PInt 4]\<rparr>)"
    by (rule trans)
  show ?thesis
    by (intro conjI) (rule whole, rule last, rule stop, rule more)
qed

end
